theory Spec2Isabelle
  imports Main
begin

section \<open>JavaScript strings and numbers\<close>

text \<open>
  Strings are modelled as \<^typ>\<open>string\<close>; a character stands for one code unit and the
  model covers the code units up to 255. \<open>isWhiteSpace\<close> is the set that
  \<^verbatim>\<open>String.prototype.trim\<close> and the regular expression class \<^verbatim>\<open>\s\<close> remove,
  restricted to that range: tab, line feed, vertical tab, form feed, carriage return, space
  and no-break space.
\<close>

definition isWhiteSpace :: "char \<Rightarrow> bool" where
  "isWhiteSpace c =
     (c \<in> set [CHR 0x09, CHR 0x0A, CHR 0x0B, CHR 0x0C, CHR 0x0D, CHR 0x20, CHR 0xA0])"

definition trim :: "string \<Rightarrow> string" where
  "trim s = rev (dropWhile isWhiteSpace (rev (dropWhile isWhiteSpace s)))"

text \<open>\<^verbatim>\<open>s.split(/\s+/)\<close>: the pieces between maximal runs of white space.\<close>

function split_ws :: "string \<Rightarrow> string list" where
  "split_ws s =
     (let tok = takeWhile (\<lambda>c. \<not> isWhiteSpace c) s;
          rest = dropWhile (\<lambda>c. \<not> isWhiteSpace c) s
      in if rest = [] then [tok] else tok # split_ws (dropWhile isWhiteSpace rest))"
  by pat_completeness auto
termination
proof (relation "measure length")
  show "wf (measure length)" by simp
next
  fix s :: string and tok rest
  assume r: "rest = dropWhile (\<lambda>c. \<not> isWhiteSpace c) s" and ne: "rest \<noteq> []"
  have "length (dropWhile isWhiteSpace rest) \<le> length rest"
    by (rule length_dropWhile_le)
  moreover have "length rest \<le> length s"
    unfolding r by (rule length_dropWhile_le)
  moreover have "isWhiteSpace (hd rest)"
    using ne hd_dropWhile [of "\<lambda>c. \<not> isWhiteSpace c" s] r by auto
  then have "dropWhile isWhiteSpace rest = dropWhile isWhiteSpace (tl rest)"
    using ne by (cases rest) auto
  then have "length (dropWhile isWhiteSpace rest) < length rest"
    using ne length_dropWhile_le [of isWhiteSpace "tl rest"] by (cases rest) auto
  ultimately show "(dropWhile isWhiteSpace rest, s) \<in> measure length"
    by simp
qed

declare split_ws.simps [simp del]

text \<open>\<^verbatim>\<open>xs.join(sep)\<close>.\<close>

fun join :: "string \<Rightarrow> string list \<Rightarrow> string" where
  "join sep [] = []"
| "join sep [x] = x"
| "join sep (x # y # ys) = x @ sep @ join sep (y # ys)"

text \<open>The decimal numeral a template literal prints for a non-negative integer.\<close>

definition digit_char :: "nat \<Rightarrow> char" where
  "digit_char d = char_of (48 + d)"

function string_of_nat :: "nat \<Rightarrow> string" where
  "string_of_nat n =
     (if n < 10 then [digit_char n] else string_of_nat (n div 10) @ [digit_char (n mod 10)])"
  by pat_completeness auto
termination
  by (relation "measure (\<lambda>n. n)") auto

declare string_of_nat.simps [simp del]

text \<open>
  \<^verbatim>\<open>toLowerCase\<close> on the modelled range: the ASCII capitals and the Latin-1 capitals
  (all of 0xC0 to 0xDE but the multiplication sign 0xD7) move up by 32.
\<close>

definition lower_char :: "char \<Rightarrow> char" where
  "lower_char c =
     (let n = of_char c :: nat
      in if (65 \<le> n \<and> n \<le> 90) \<or> (192 \<le> n \<and> n \<le> 222 \<and> n \<noteq> 215) then char_of (n + 32) else c)"

definition toLowerCase :: "string \<Rightarrow> string" where
  "toLowerCase s = map lower_char s"

section \<open>The document the host parser returns\<close>

text \<open>
  \<open>DOMParser\<close> belongs to the host: the model takes \<open>parseFromString\<close> as a parameter
  and works on the document it returns. An element has a tag name, its attributes in
  order and its child nodes; a child node is an element, a text node, or a node of
  another type (a comment, say), kept with its \<open>nodeType\<close>. What a document holds
  outside its body is carried along unread.
\<close>

datatype dom_element = Element (tagName: string) (attrs: "(string \<times> string) list")
    (childNodes: "dom_node list")
  and dom_node = ElementNode dom_element | TextNode string | OtherNode nat

record dom_document =
  outside_body :: string
  body :: dom_element

text \<open>\<^verbatim>\<open>setAttribute\<close>: replace the value of an attribute that is there, append otherwise.\<close>

definition setAttribute :: "(string \<times> string) list \<Rightarrow> string \<Rightarrow> string \<Rightarrow> (string \<times> string) list" where
  "setAttribute ats name v =
     (if name \<in> fst ` set ats then map (\<lambda>a. if fst a = name then (name, v) else a) ats
      else ats @ [(name, v)])"

section \<open>ParsedNode and parseHtmlContent\<close>

text \<open>
  The interface \<open>ParsedNode\<close>. Its field \<open>id\<close> is \<open>id_node\<close> here; the two optional
  fields are options, \<open>None\<close> where the source leaves them out. \<open>attributes\<close>, a
  \<open>Record<string, string>\<close>, is a map.
\<close>

datatype ParsedNode = ParsedNode (id_node: string) (tag: string)
  (attributes: "string \<rightharpoonup> string") (children: "ParsedNode list")
  (textContent: "string option") (isSelfClosing: "bool option")

text \<open>
  \<^verbatim>\<open>attributes[attr.name] = attr.value\<close> on a plain object: an assignment to the key
  \<^verbatim>\<open>__proto__\<close> with a string value creates no property.
\<close>

definition assign_property :: "(string \<rightharpoonup> string) \<Rightarrow> string \<Rightarrow> string \<Rightarrow> (string \<rightharpoonup> string)" where
  "assign_property m k v = (if k = ''__proto__'' then m else m(k \<mapsto> v))"

definition collect_attributes :: "(string \<times> string) list \<Rightarrow> (string \<rightharpoonup> string)" where
  "collect_attributes ats =
     foldl (\<lambda>m a. if fst a \<noteq> ''data-inspector-id'' then assign_property m (fst a) (snd a) else m)
       Map.empty ats"

definition voidElements :: "string list" where
  "voidElements =
     [''area'', ''base'', ''br'', ''col'', ''embed'', ''hr'', ''img'', ''input'',
      ''link'', ''meta'', ''param'', ''source'', ''track'', ''wbr'']"

text \<open>
  \<open>traverse\<close> writes the path on the element and builds its node; the loop over
  \<open>domNode.childNodes\<close> is \<open>traverse_childNodes\<close>, whose third argument is the running
  \<open>childIndex\<close>. Each returns the nodes built together with the document part as it is
  after the writes.
\<close>

fun traverse :: "dom_element \<Rightarrow> string \<Rightarrow> ParsedNode \<times> dom_element"
  and traverse_childNodes :: "dom_node list \<Rightarrow> string \<Rightarrow> nat \<Rightarrow> ParsedNode list \<times> dom_node list"
where
  "traverse (Element tg ats kids) path =
     (let ats' = setAttribute ats ''data-inspector-id'' path;
          r = traverse_childNodes kids path 0
      in (ParsedNode path (toLowerCase tg) (collect_attributes ats') (fst r) None
            (Some (toLowerCase tg \<in> set voidElements)),
          Element tg ats' (snd r)))"
| "traverse_childNodes [] path childIndex = ([], [])"
| "traverse_childNodes (ElementNode e # rest) path childIndex =
     (let t = traverse e (path @ ''-'' @ string_of_nat childIndex);
          r = traverse_childNodes rest path (childIndex + 1)
      in (fst t # fst r, ElementNode (snd t) # snd r))"
| "traverse_childNodes (TextNode txt # rest) path childIndex =
     (if trim txt \<noteq> []
      then (let r = traverse_childNodes rest path (childIndex + 1)
            in (ParsedNode (path @ ''-txt-'' @ string_of_nat childIndex) ''#text'' Map.empty []
                  (Some txt) (Some True) # fst r,
                TextNode txt # snd r))
      else (let r = traverse_childNodes rest path childIndex
            in (fst r, TextNode txt # snd r)))"
| "traverse_childNodes (OtherNode k # rest) path childIndex =
     (let r = traverse_childNodes rest path childIndex in (fst r, OtherNode k # snd r))"

text \<open>
  The loop over \<open>body.children\<close>, the element children of the body, with its own
  \<open>childIndex\<close>; the other child nodes of the body stay in the document untouched.
\<close>

fun traverse_body :: "dom_node list \<Rightarrow> nat \<Rightarrow> ParsedNode list \<times> dom_node list" where
  "traverse_body [] childIndex = ([], [])"
| "traverse_body (ElementNode e # rest) childIndex =
     (let t = traverse e (''root-'' @ string_of_nat childIndex);
          r = traverse_body rest (childIndex + 1)
      in (fst t # fst r, ElementNode (snd t) # snd r))"
| "traverse_body (TextNode txt # rest) childIndex =
     (let r = traverse_body rest childIndex in (fst r, TextNode txt # snd r))"
| "traverse_body (OtherNode k # rest) childIndex =
     (let r = traverse_body rest childIndex in (fst r, OtherNode k # snd r))"

text \<open>
  \<open>injectedHtml\<close> is the string \<open>XMLSerializer\<close> makes of the whole document after the
  writes; the serializer is the host's, and the model keeps the document it is given.
\<close>

record parse_result =
  root :: ParsedNode
  injectedHtml :: dom_document

definition parseHtmlContent :: "(string \<Rightarrow> dom_document) \<Rightarrow> string \<Rightarrow> parse_result" where
  "parseHtmlContent parseFromString html =
     (let doc = parseFromString html;
          r = traverse_body (childNodes (body doc)) 0;
          rootNode = ParsedNode ''root'' ''div'' [''class'' \<mapsto> ''inspector-root''] (fst r) None None
      in \<lparr>root = rootNode,
          injectedHtml = doc\<lparr>body := Element (tagName (body doc)) (attrs (body doc)) (snd r)\<rparr>\<rparr>)"

section \<open>generateCssSelector\<close>

text \<open>
  \<open>findPath\<close> with its loop over \<open>node.children\<close> (\<open>findPath_children\<close>); \<open>null\<close> is
  \<open>None\<close>, and a path found is never empty, hence always truthy.
\<close>

fun findPath :: "string \<Rightarrow> ParsedNode \<Rightarrow> ParsedNode list \<Rightarrow> ParsedNode list option"
  and findPath_children :: "string \<Rightarrow> ParsedNode list \<Rightarrow> ParsedNode list \<Rightarrow> ParsedNode list option"
where
  "findPath targetId (ParsedNode i tg ats cs tc sc) currentPath =
     (if i = targetId then Some (currentPath @ [ParsedNode i tg ats cs tc sc])
      else findPath_children targetId cs (currentPath @ [ParsedNode i tg ats cs tc sc]))"
| "findPath_children targetId [] path = None"
| "findPath_children targetId (child # rest) path =
     (case findPath targetId child path of
        Some result \<Rightarrow> Some result
      | None \<Rightarrow> findPath_children targetId rest path)"

text \<open>\<^verbatim>\<open>findIndex\<close>, with \<open>None\<close> for -1.\<close>

fun findIndex :: "('a \<Rightarrow> bool) \<Rightarrow> 'a list \<Rightarrow> nat option" where
  "findIndex p [] = None"
| "findIndex p (x # xs) =
     (if p x then Some 0 else (case findIndex p xs of None \<Rightarrow> None | Some i \<Rightarrow> Some (i + 1)))"

text \<open>A property read in a condition: \<open>undefined\<close> and the empty string are falsy.\<close>

definition truthy :: "string option \<Rightarrow> bool" where
  "truthy v = (case v of None \<Rightarrow> False | Some s \<Rightarrow> s \<noteq> [])"

text \<open>The body of the \<open>map\<close> callback: \<open>parent\<close> is \<open>path[idx]\<close>.\<close>

definition selector_segment :: "ParsedNode \<Rightarrow> ParsedNode \<Rightarrow> string" where
  "selector_segment parent node =
     (if truthy (attributes node ''id'') then tag node @ ''#'' @ the (attributes node ''id'')
      else if truthy (attributes node ''class'') then
        (let classes = split_ws (trim (the (attributes node ''class'')))
         in if length classes > 0 \<and> hd classes \<noteq> [] then tag node @ ''.'' @ hd classes
            else tag node)
      else
        (let siblings = filter (\<lambda>c. tag c = tag node) (children parent)
         in if length siblings > 1 then
              (case findIndex (\<lambda>c. id_node c = id_node node) siblings of
                 Some indexInSiblings \<Rightarrow>
                   tag node @ '':nth-of-type('' @ string_of_nat (indexInSiblings + 1) @ '')''
               | None \<Rightarrow> tag node)
            else tag node))"

definition generateCssSelector :: "ParsedNode \<Rightarrow> string \<Rightarrow> string" where
  "generateCssSelector rootNode targetId =
     (case findPath targetId rootNode [] of
        None \<Rightarrow> []
      | Some path \<Rightarrow>
          if length path = 0 then []
          else (let pathNodes = tl path
                in if length pathNodes = 0 then ''root''
                   else join '' > ''
                          (map (\<lambda>(node, idx). selector_segment (path ! idx) node)
                             (zip pathNodes [0 ..< length pathNodes]))))"

section \<open>The application state and its handlers\<close>

text \<open>The interface \<open>ScrapeTarget\<close>; its field \<open>id\<close> is \<open>id_target\<close>.\<close>

record ScrapeTarget =
  id_target :: string
  selector :: string
  name :: string
  description :: string
  exampleValue :: string

text \<open>
  The state hooks of \<open>App\<close> that its handlers below read or write (the panel sizes
  and the two fields of the element analysis are left out). \<open>null\<close> is \<open>None\<close>;
  \<open>scrapedResult\<close> holds the result as text.
\<close>

record app_state =
  urlInput :: string
  loadedUrl :: string
  isLoadingUrl :: bool
  rawHtml :: string
  selectedId :: "string option"
  hoveredId :: "string option"
  isInspectMode :: bool
  isResizing :: bool
  scrapeTargets :: "ScrapeTarget list"
  targetName :: string
  targetDescription :: string
  generatedScript :: string
  scrapedResult :: "string option"
  isScraping :: bool

text \<open>The initial values of the hooks; \<open>EXAMPLE_HTML\<close> is the argument.\<close>

definition initial_state :: "string \<Rightarrow> app_state" where
  "initial_state example_html =
     \<lparr>urlInput = [], loadedUrl = [], isLoadingUrl = False, rawHtml = example_html,
      selectedId = None, hoveredId = None, isInspectMode = True, isResizing = False,
      scrapeTargets = [], targetName = [], targetDescription = [], generatedScript = [],
      scrapedResult = None, isScraping = False\<rparr>"

text \<open>\<open>findNode\<close> inside the \<open>selectedNode\<close> memo, with its loop over the children.\<close>

fun findNode :: "string \<Rightarrow> ParsedNode \<Rightarrow> ParsedNode option"
  and findNode_children :: "string \<Rightarrow> ParsedNode list \<Rightarrow> ParsedNode option"
where
  "findNode sel (ParsedNode i tg ats cs tc sc) =
     (if i = sel then Some (ParsedNode i tg ats cs tc sc) else findNode_children sel cs)"
| "findNode_children sel [] = None"
| "findNode_children sel (child # rest) =
     (case findNode sel child of
        Some found \<Rightarrow> Some found
      | None \<Rightarrow> findNode_children sel rest)"


text \<open>
  \<open>handleUrlSubmit\<close> is asynchronous. \<open>handleUrlSubmit_start\<close> is its part before the
  \<open>await\<close>: it returns the URL whose fetch it started, if any. The continuation runs when
  that fetch settles: \<open>handleUrlSubmit_fulfilled\<close> with the URL the call had read and the
  content fetched, \<open>handleUrlSubmit_rejected\<close> (the alert apart) when the fetch failed;
  both end with the \<open>finally\<close> block.
\<close>

definition handleUrlSubmit_start :: "app_state \<Rightarrow> app_state \<times> string option" where
  "handleUrlSubmit_start s =
     (if urlInput s = [] then (s, None) else (s\<lparr>isLoadingUrl := True\<rparr>, Some (urlInput s)))"

definition handleUrlSubmit_fulfilled :: "string \<Rightarrow> string \<Rightarrow> app_state \<Rightarrow> app_state" where
  "handleUrlSubmit_fulfilled url content s =
     s\<lparr>rawHtml := content, loadedUrl := url, scrapeTargets := [], generatedScript := [],
       scrapedResult := None, selectedId := None, isLoadingUrl := False\<rparr>"

definition handleUrlSubmit_rejected :: "app_state \<Rightarrow> app_state" where
  "handleUrlSubmit_rejected s = s\<lparr>isLoadingUrl := False\<rparr>"


definition handleRemoveTarget :: "nat \<Rightarrow> app_state \<Rightarrow> app_state" where
  "handleRemoveTarget index s =
     s\<lparr>scrapeTargets := take index (scrapeTargets s) @ drop (Suc index) (scrapeTargets s)\<rparr>"

text \<open>The two buttons of the mode toggle call \<open>setIsInspectMode\<close>.\<close>

definition setIsInspectMode :: "bool \<Rightarrow> app_state \<Rightarrow> app_state" where
  "setIsInspectMode b s = s\<lparr>isInspectMode := b\<rparr>"

subsection \<open>Events\<close>

text \<open>
  The handlers run one at a time on the event loop. A system state is the hooks together
  with the URLs of the fetches in flight, oldest first; an event is the user typing in the
  URL field, the form being submitted, a fetch in flight settling, a view reporting a hover
  or a selection, or a click on the mode toggle.
\<close>

datatype event =
    ChangeUrlInput string
  | SubmitUrl
  | FetchFulfilled nat string
  | FetchRejected nat
  | Hover "string option"
  | Select string
  | SetInspectMode bool

record system =
  app :: app_state
  inFlight :: "string list"

definition remove_nth :: "nat \<Rightarrow> 'a list \<Rightarrow> 'a list" where
  "remove_nth i xs = take i xs @ drop (Suc i) xs"

fun step :: "system \<Rightarrow> event \<Rightarrow> system" where
  "step sys (ChangeUrlInput v) = sys\<lparr>app := (app sys)\<lparr>urlInput := v\<rparr>\<rparr>"
| "step sys SubmitUrl =
     (case handleUrlSubmit_start (app sys) of
        (s, None) \<Rightarrow> sys\<lparr>app := s\<rparr>
      | (s, Some url) \<Rightarrow> \<lparr>app = s, inFlight = inFlight sys @ [url]\<rparr>)"
| "step sys (FetchFulfilled i content) =
     (if i < length (inFlight sys)
      then \<lparr>app = handleUrlSubmit_fulfilled (inFlight sys ! i) content (app sys),
            inFlight = remove_nth i (inFlight sys)\<rparr>
      else sys)"
| "step sys (FetchRejected i) =
     (if i < length (inFlight sys)
      then \<lparr>app = handleUrlSubmit_rejected (app sys), inFlight = remove_nth i (inFlight sys)\<rparr>
      else sys)"
| "step sys (Hover h) = sys\<lparr>app := (app sys)\<lparr>hoveredId := h\<rparr>\<rparr>"
| "step sys (Select i) = sys\<lparr>app := (app sys)\<lparr>selectedId := Some i\<rparr>\<rparr>"
| "step sys (SetInspectMode b) = sys\<lparr>app := setIsInspectMode b (app sys)\<rparr>"

definition run :: "system \<Rightarrow> event list \<Rightarrow> system" where
  "run sys evs = foldl step sys evs"

definition initial_system :: "string \<Rightarrow> system" where
  "initial_system example_html = \<lparr>app = initial_state example_html, inFlight = []\<rparr>"

text \<open>
  What the form lets through. The submit button is rendered only when the URL field is not
  empty, and it is disabled while \<open>isLoadingUrl\<close>: a disabled submit button takes no click
  and blocks the submission by the Enter key. With an empty field there is no button and
  Enter submits the form.
\<close>

definition submit_enabled :: "app_state \<Rightarrow> bool" where
  "submit_enabled s = (urlInput s = [] \<or> \<not> isLoadingUrl s)"

fun ui_allows :: "system \<Rightarrow> event \<Rightarrow> bool" where
  "ui_allows sys SubmitUrl = submit_enabled (app sys)"
| "ui_allows sys (FetchFulfilled i content) = (i < length (inFlight sys))"
| "ui_allows sys (FetchRejected i) = (i < length (inFlight sys))"
| "ui_allows sys e = True"

fun ui_run :: "system \<Rightarrow> event list \<Rightarrow> system option" where
  "ui_run sys [] = Some sys"
| "ui_run sys (e # es) = (if ui_allows sys e then ui_run (step sys e) es else None)"

section \<open>The overlays of VisualViewer\<close>

record overlay_props =
  targetId :: "string option"
  color :: string
  label :: "string option"
  isActive :: bool

text \<open>
  The overlays \<open>VisualViewer\<close> renders from its props; \<open>iframe_mounted\<close> is
  \<open>iframeRef.current\<close> being set.
\<close>

definition VisualViewer_overlays :: "bool \<Rightarrow> app_state \<Rightarrow> overlay_props list" where
  "VisualViewer_overlays iframe_mounted s =
     (if isInspectMode s \<and> iframe_mounted \<and> \<not> isResizing s
      then [\<lparr>targetId = selectedId s, color = ''#ffffff'', label = Some ''Selected'',
              isActive = truthy (selectedId s)\<rparr>,
            \<lparr>targetId = hoveredId s, color = ''#71717a'', label = None,
              isActive = (truthy (hoveredId s) \<and> hoveredId s \<noteq> selectedId s)\<rparr>]
      else [])"

text \<open>
  An \<open>Overlay\<close> keeps the rectangle it draws in its state \<open>rect\<close>, \<open>null\<close> when it is
  mounted. Its effect runs after the first render and after every render in which
  \<open>targetId\<close>, \<open>isActive\<close> or \<open>scrollTrigger\<close> has changed (\<open>iframeRef\<close> is the same
  object throughout), and stores the bounding rectangle of the live element that carries
  the id: \<open>getRect\<close> gives that rectangle, \<open>None\<close> when the frame has no document or no
  such element. \<open>deps\<close> holds the dependencies of the last run of the effect.
\<close>

record 'r overlay_instance =
  rect :: "'r option"
  deps :: "(string option \<times> bool \<times> nat) option"

definition mount_overlay :: "'r overlay_instance" where
  "mount_overlay = \<lparr>rect = None, deps = None\<rparr>"

definition Overlay_effect ::
  "(string \<Rightarrow> 'r option) \<Rightarrow> nat \<Rightarrow> overlay_props \<Rightarrow> 'r overlay_instance \<Rightarrow> 'r overlay_instance" where
  "Overlay_effect getRect scrollTrigger p inst =
     (if deps inst = Some (targetId p, isActive p, scrollTrigger) then inst
      else \<lparr>rect = (if \<not> truthy (targetId p) then None else getRect (the (targetId p))),
            deps = Some (targetId p, isActive p, scrollTrigger)\<rparr>)"

text \<open>What an \<open>Overlay\<close> renders from its state and props: the rectangle, or nothing.\<close>

definition Overlay :: "'r overlay_instance \<Rightarrow> overlay_props \<Rightarrow> 'r option" where
  "Overlay inst p = (if rect inst = None \<or> \<not> isActive p then None else rect inst)"

text \<open>
  The \<open>Overlay\<close> instances of a \<open>VisualViewer\<close> after a render and its effects: none
  while the overlays are not rendered, new ones when they were not mounted before, else
  the ones that were there; each has run its effect. \<open>rendered_overlays\<close> is what the
  instances draw.
\<close>

definition VisualViewer_commit ::
  "(string \<Rightarrow> 'r option) \<Rightarrow> nat \<Rightarrow> bool \<Rightarrow> app_state \<Rightarrow> 'r overlay_instance list
     \<Rightarrow> 'r overlay_instance list" where
  "VisualViewer_commit getRect scrollTrigger iframe_mounted s insts =
     (let ps = VisualViewer_overlays iframe_mounted s;
          kept = (case insts of [] \<Rightarrow> map (\<lambda>p. mount_overlay) ps | inst # others \<Rightarrow> insts)
      in map (\<lambda>(inst, p). Overlay_effect getRect scrollTrigger p inst) (zip kept ps))"

definition rendered_overlays :: "'r overlay_instance list \<Rightarrow> bool \<Rightarrow> app_state \<Rightarrow> 'r list" where
  "rendered_overlays insts iframe_mounted s =
     List.map_filter (\<lambda>(inst, p). Overlay inst p) (zip insts (VisualViewer_overlays iframe_mounted s))"

section \<open>The script generation service\<close>

text \<open>Characters written apart from the literals they would end.\<close>

definition dq :: string where "dq = [CHR 0x22]"
definition sq :: string where "sq = [CHR 0x27]"
definition bt :: string where "bt = [CHR 0x60]"
definition newline :: string where "newline = [CHR 0x0A]"

text \<open>The entry of one target in the prompt, and the entries joined by line feeds.\<close>

definition target_entry :: "ScrapeTarget \<Rightarrow> string" where
  "target_entry t = join newline
     [[],
      ''      - Field Name: '' @ dq @ name t @ dq,
      ''      - Selector: '' @ dq @ selector t @ dq,
      ''      - User Instruction: '' @ dq @ description t @ dq,
      ''      - Example of raw text: '' @ dq @ exampleValue t @ dq,
      ''    '']"

definition targetsDesc :: "ScrapeTarget list \<Rightarrow> string" where
  "targetsDesc targets = join newline (map target_entry targets)"

definition scraping_prompt :: "ScrapeTarget list \<Rightarrow> string" where
  "scraping_prompt targets =
     join newline
       [[],
        ''      You are a web scraping expert. I have an HTML page and a list of data points I want to extract.'',
        ''      '',
        ''      Target Data Points:'',
        ''      '']
     @ targetsDesc targets @
     join newline
       [[],
        [],
        ''      Task:'',
        ''      Write a JavaScript function named '' @ bt @ ''extractData'' @ bt @ '' that takes the '' @ bt @ ''document'' @ bt @ '' object as an argument.'',
        ''      It should return a JSON object where the keys are the '' @ dq @ ''Field Name'' @ dq @ '' (normalized to camelCase).'',
        ''      '',
        ''      Important Rules:'',
        ''      1. **Follow User Instructions**: The '' @ dq @ ''User Instruction'' @ dq @ '' is the most important part. If it says '' @ dq @ ''get all links'' @ dq @ '' or '' @ dq @ ''list of items'' @ dq @ '', return an Array. If it says '' @ dq @ ''text'' @ dq @ '', return a String.'',
        ''      2. **Selector Fallback**: Use the provided selector as a starting point. If the user instruction implies children of that selector (e.g. '' @ dq @ ''get links inside this div'' @ dq @ ''), find elements *within* that selector.'',
        ''      3. **Robustness**: Handle missing elements gracefully (null or empty string/array).'',
        ''      4. **Output**: Return ONLY the raw JavaScript code for the function. Do not wrap in markdown code blocks.'',
        ''      '',
        ''      Example output structure:'',
        ''      function extractData(doc) {'',
        ''        const root = doc.querySelector('' @ sq @ ''...'' @ sq @ '');'',
        ''        return {'',
        ''           productTitle: root ? root.innerText : '' @ sq @ sq @ '','',
        ''           images: Array.from(root.querySelectorAll('' @ sq @ ''img'' @ sq @ '')).map(i => i.src)'',
        ''        };'',
        ''      }'',
        ''    '']"

text \<open>
  The service's answer to a prompt: the \<open>text\<close> of each chunk it delivers (\<open>None\<close>
  for a chunk without text), and whether the call or the stream throws after them.
\<close>

datatype ai_response = AiResponse (delivered: "string option list") (throws: bool)

text \<open>\<^verbatim>\<open>text.replace(/```javascript|```/g, '')\<close>.\<close>

function strip_fences :: "string \<Rightarrow> string" where
  "strip_fences s =
     (if s = [] then []
      else if take 13 s = bt @ bt @ bt @ ''javascript'' then strip_fences (drop 13 s)
      else if take 3 s = bt @ bt @ bt then strip_fences (drop 3 s)
      else hd s # strip_fences (tl s))"
  by pat_completeness auto
termination
  by (relation "measure length") (auto simp: neq_Nil_conv)

declare strip_fences.simps [simp del]

text \<open>
  \<open>generateScrapingScriptStream\<close>: the chunks the generator yields, in order.
  \<open>apiKey\<close> is \<open>process.env.API_KEY\<close> and \<open>generateContentStream\<close> the service.
\<close>

definition generateScrapingScriptStream ::
  "string option \<Rightarrow> (string \<Rightarrow> ai_response) \<Rightarrow> string \<Rightarrow> ScrapeTarget list \<Rightarrow> string list" where
  "generateScrapingScriptStream apiKey generateContentStream html targets =
     (if \<not> truthy apiKey then [''// Error: No API Key'']
      else
        (let responseStream = generateContentStream (scraping_prompt targets);
             yielded =
               filter (\<lambda>text. text \<noteq> [])
                 (map (\<lambda>chunk. strip_fences (case chunk of None \<Rightarrow> [] | Some text \<Rightarrow> text))
                    (delivered responseStream))
         in if throws responseStream
            then yielded @ [''// Error generating scraping script. Check API Key.'']
            else yielded))"

text \<open>\<open>generateScrapingScript\<close>: the loop that appends each chunk to \<open>result\<close>.\<close>

definition generateScrapingScript ::
  "string option \<Rightarrow> (string \<Rightarrow> ai_response) \<Rightarrow> string \<Rightarrow> ScrapeTarget list \<Rightarrow> string" where
  "generateScrapingScript apiKey generateContentStream html targets =
     foldl (\<lambda>result chunk. result @ chunk) []
       (generateScrapingScriptStream apiKey generateContentStream html targets)"

section \<open>Notions the properties are stated with\<close>

subsection \<open>Trees\<close>

text \<open>The ids of a tree and its nodes, in document order.\<close>

fun all_ids :: "ParsedNode \<Rightarrow> string list" where
  "all_ids (ParsedNode i tg ats cs tc sc) = i # concat (map all_ids cs)"

fun subnodes :: "ParsedNode \<Rightarrow> ParsedNode list" where
  "subnodes (ParsedNode i tg ats cs tc sc) =
     ParsedNode i tg ats cs tc sc # concat (map subnodes cs)"

text \<open>
  A text run is a node that carries \<open>textContent\<close>; an element node carries none.
  \<open>text_runs\<close> lists the text runs of a tree in document order.
\<close>

fun text_runs :: "ParsedNode \<Rightarrow> ParsedNode list" where
  "text_runs (ParsedNode i tg ats cs tc sc) =
     (if tc \<noteq> None then [ParsedNode i tg ats cs tc sc] else []) @ concat (map text_runs cs)"

text \<open>The ids of a tree with its shape: the id at every position.\<close>

datatype id_tree = IdTree string "id_tree list"

fun ids_at_positions :: "ParsedNode \<Rightarrow> id_tree" where
  "ids_at_positions (ParsedNode i tg ats cs tc sc) = IdTree i (map ids_at_positions cs)"

text \<open>
  The node reached from a node by a list of child positions, and the nodes passed on the
  way, the start included.
\<close>

fun node_at :: "ParsedNode \<Rightarrow> nat list \<Rightarrow> ParsedNode option" where
  "node_at n [] = Some n"
| "node_at n (k # ks) = (if k < length (children n) then node_at (children n ! k) ks else None)"

fun nodes_along :: "ParsedNode \<Rightarrow> nat list \<Rightarrow> ParsedNode list" where
  "nodes_along n [] = [n]"
| "nodes_along n (k # ks) = n # nodes_along (children n ! k) ks"

subsection \<open>Ids by position\<close>

text \<open>
  \<open>positional_ids n\<close>: the child at position \<open>k\<close> of \<open>n\<close> has the id of \<open>n\<close>, a dash
  (\<open>-txt-\<close> for a text run) and \<open>k\<close>. \<open>built_children path i ns\<close>: the nodes \<open>ns\<close> are
  numbered from \<open>i\<close> on under \<open>path\<close>, and ids are by position everywhere below them.
  \<open>element_index cs k\<close> counts the element nodes before position \<open>k\<close>.
\<close>

definition id_separator :: "ParsedNode \<Rightarrow> string" where
  "id_separator c = (if textContent c = None then ''-'' else ''-txt-'')"

definition positional_ids :: "ParsedNode \<Rightarrow> bool" where
  "positional_ids n =
     (\<forall>k < length (children n).
        id_node (children n ! k) = id_node n @ id_separator (children n ! k) @ string_of_nat k)"

definition built_children :: "string \<Rightarrow> nat \<Rightarrow> ParsedNode list \<Rightarrow> bool" where
  "built_children path i ns =
     (\<forall>j < length ns.
        id_node (ns ! j) = path @ id_separator (ns ! j) @ string_of_nat (i + j)
        \<and> (\<forall>m \<in> set (subnodes (ns ! j)). positional_ids m))"

definition element_index :: "ParsedNode list \<Rightarrow> nat \<Rightarrow> nat" where
  "element_index cs k = length (filter (\<lambda>c. textContent c = None) (take k cs))"

text \<open>
  For the uniqueness of ids: decimal digits and the number they write; \<open>numbered path j x\<close>
  says that the id \<open>x\<close> continues \<open>path\<close> with a separator and the numeral \<open>j\<close>, after
  which it ends or goes on with a dash.
\<close>

definition is_digit :: "char \<Rightarrow> bool" where
  "is_digit c = (48 \<le> (of_char c :: nat) \<and> (of_char c :: nat) \<le> 57)"

definition nat_of_digits :: "string \<Rightarrow> nat" where
  "nat_of_digits s = foldl (\<lambda>a c. 10 * a + (of_char c - 48)) 0 s"

definition numbered :: "string \<Rightarrow> nat \<Rightarrow> string \<Rightarrow> bool" where
  "numbered path j x =
     (\<exists>sep r. x = path @ sep @ string_of_nat j @ r \<and> (sep = ''-'' \<or> sep = ''-txt-'')
        \<and> (r = [] \<or> hd r = CHR ''-''))"

definition numbered_from :: "string \<Rightarrow> nat \<Rightarrow> string \<Rightarrow> bool" where
  "numbered_from path i x = (\<exists>j \<ge> i. numbered path j x)"

subsection \<open>Text nodes of a document\<close>

definition nonblank :: "string \<Rightarrow> bool" where
  "nonblank t = (trim t \<noteq> [])"

text \<open>
  The contents of the text nodes below an element and below a list of nodes, in document
  order; \<open>texts_below_elements\<close> leaves out the text nodes of the list itself.
\<close>

fun texts_of_element :: "dom_element \<Rightarrow> string list"
  and texts_of_nodes :: "dom_node list \<Rightarrow> string list"
where
  "texts_of_element (Element tg ats kids) = texts_of_nodes kids"
| "texts_of_nodes [] = []"
| "texts_of_nodes (ElementNode e # rest) = texts_of_element e @ texts_of_nodes rest"
| "texts_of_nodes (TextNode t # rest) = t # texts_of_nodes rest"
| "texts_of_nodes (OtherNode k # rest) = texts_of_nodes rest"

fun texts_below_elements :: "dom_node list \<Rightarrow> string list" where
  "texts_below_elements [] = []"
| "texts_below_elements (ElementNode e # rest) = texts_of_element e @ texts_below_elements rest"
| "texts_below_elements (TextNode t # rest) = texts_below_elements rest"
| "texts_below_elements (OtherNode k # rest) = texts_below_elements rest"

definition kept_text :: "ParsedNode \<Rightarrow> bool" where
  "kept_text m =
     (tag m = ''#text'' \<and> isSelfClosing m = Some True \<and> children m = []
      \<and> (\<exists>t. textContent m = Some t \<and> nonblank t))"

subsection \<open>The shape of a document\<close>

text \<open>
  What is left of a document when tag names, attributes, the contents of the text nodes
  and every node that builds no tree node are forgotten: elements with their kept
  children, and non-blank text nodes. Of the body's own children only the elements count.
  \<open>ids_of_shapes path i\<close> numbers a list of shapes from \<open>i\<close> on under \<open>path\<close>.
\<close>

datatype shape = ShapeElement "shape list" | ShapeText

fun shape_of_element :: "dom_element \<Rightarrow> shape"
  and shape_of_nodes :: "dom_node list \<Rightarrow> shape list"
where
  "shape_of_element (Element tg ats kids) = ShapeElement (shape_of_nodes kids)"
| "shape_of_nodes [] = []"
| "shape_of_nodes (ElementNode e # rest) = shape_of_element e # shape_of_nodes rest"
| "shape_of_nodes (TextNode t # rest) =
     (if nonblank t then ShapeText # shape_of_nodes rest else shape_of_nodes rest)"
| "shape_of_nodes (OtherNode k # rest) = shape_of_nodes rest"

fun shape_of_body :: "dom_node list \<Rightarrow> shape list" where
  "shape_of_body [] = []"
| "shape_of_body (ElementNode e # rest) = shape_of_element e # shape_of_body rest"
| "shape_of_body (TextNode t # rest) = shape_of_body rest"
| "shape_of_body (OtherNode k # rest) = shape_of_body rest"

fun ids_of_shapes :: "string \<Rightarrow> nat \<Rightarrow> shape list \<Rightarrow> id_tree list" where
  "ids_of_shapes path i [] = []"
| "ids_of_shapes path i (ShapeElement ss # rest) =
     IdTree (path @ ''-'' @ string_of_nat i) (ids_of_shapes (path @ ''-'' @ string_of_nat i) 0 ss)
       # ids_of_shapes path (i + 1) rest"
| "ids_of_shapes path i (ShapeText # rest) =
     IdTree (path @ ''-txt-'' @ string_of_nat i) [] # ids_of_shapes path (i + 1) rest"

subsection \<open>The selector policy\<close>

text \<open>
  The segment of the child at position \<open>k\<close> of \<open>parent\<close>, read off the tree by position:
  the tag with the non-empty \<open>id\<close> attribute; else, the \<open>class\<close> attribute being
  non-empty, the tag with its first token if it has one; else, when the parent has more
  than one child of this tag, the tag with the one-based rank of position \<open>k\<close> among
  the children of this tag; else the tag. \<open>policy_segments\<close> collects the segments down
  a list of child positions.
\<close>

definition first_class_token :: "string \<Rightarrow> string" where
  "first_class_token v = takeWhile (\<lambda>c. \<not> isWhiteSpace c) (dropWhile isWhiteSpace v)"

definition policy_segment :: "ParsedNode \<Rightarrow> nat \<Rightarrow> string" where
  "policy_segment parent k =
     (let node = children parent ! k
      in if truthy (attributes node ''id'') then tag node @ ''#'' @ the (attributes node ''id'')
         else if truthy (attributes node ''class'') then
           (if first_class_token (the (attributes node ''class'')) = [] then tag node
            else tag node @ ''.'' @ first_class_token (the (attributes node ''class'')))
         else if 1 < length (filter (\<lambda>c. tag c = tag node) (children parent)) then
           tag node @ '':nth-of-type(''
             @ string_of_nat (Suc (length (filter (\<lambda>c. tag c = tag node) (take k (children parent)))))
             @ '')''
         else tag node)"

fun policy_segments :: "ParsedNode \<Rightarrow> nat list \<Rightarrow> string list" where
  "policy_segments n [] = []"
| "policy_segments n (k # ks) = policy_segment n k # policy_segments (children n ! k) ks"

subsection \<open>Fetches in flight\<close>


text \<open>
  Superseded fetches. A fetch in flight is superseded once a later fetch has been issued.
  \<open>track\<close> follows \<open>step\<close> and keeps, for each fetch in flight, whether it is
  superseded, and whether the result of a superseded fetch has ever been applied.
\<close>

record tracked =
  current :: system
  superseded :: "bool list"
  stale_applied :: bool

definition start_tracking :: "system \<Rightarrow> tracked" where
  "start_tracking sys =
     \<lparr>current = sys, superseded = map (\<lambda>url. False) (inFlight sys), stale_applied = False\<rparr>"

fun track :: "tracked \<Rightarrow> event \<Rightarrow> tracked" where
  "track t SubmitUrl =
     (if urlInput (app (current t)) = [] then t\<lparr>current := step (current t) SubmitUrl\<rparr>
      else \<lparr>current = step (current t) SubmitUrl,
            superseded = map (\<lambda>b. True) (superseded t) @ [False],
            stale_applied = stale_applied t\<rparr>)"
| "track t (FetchFulfilled i content) =
     (if i < length (superseded t)
      then \<lparr>current = step (current t) (FetchFulfilled i content),
            superseded = remove_nth i (superseded t),
            stale_applied = (stale_applied t \<or> superseded t ! i)\<rparr>
      else t\<lparr>current := step (current t) (FetchFulfilled i content)\<rparr>)"
| "track t (FetchRejected i) =
     (if i < length (superseded t)
      then \<lparr>current = step (current t) (FetchRejected i),
            superseded = remove_nth i (superseded t),
            stale_applied = stale_applied t\<rparr>
      else t\<lparr>current := step (current t) (FetchRejected i)\<rparr>)"
| "track t e = t\<lparr>current := step (current t) e\<rparr>"

definition track_run :: "tracked \<Rightarrow> event list \<Rightarrow> tracked" where
  "track_run t evs = foldl track t evs"


subsection \<open>Example documents\<close>

text \<open>
  \<open>example_parser\<close> stands for the host parser on the documents used as examples: it
  gives the child nodes of the body for each of them, and an empty body for any other
  input.
\<close>

definition scenario_html :: string where
  "scenario_html = ''<div><p>Hello</p><p>World</p></div>''"

definition scenario_body :: "dom_node list" where
  "scenario_body =
     [ElementNode (Element ''DIV'' []
        [ElementNode (Element ''P'' [] [TextNode ''Hello'']),
         ElementNode (Element ''P'' [] [TextNode ''World''])])]"

definition inline_html :: string where
  "inline_html = ''<p>Hello <span>x</span></p>''"

definition inline_body :: "dom_node list" where
  "inline_body =
     [ElementNode (Element ''P'' []
        [TextNode ''Hello '', ElementNode (Element ''SPAN'' [] [TextNode ''x''])])]"

definition bare_text_html :: string where
  "bare_text_html = ''Hello''"

definition bare_text_body :: "dom_node list" where
  "bare_text_body = [TextNode ''Hello'']"

definition empty_id_html :: string where
  "empty_id_html = ''<div id></div>''"

definition empty_id_body :: "dom_node list" where
  "empty_id_body = [ElementNode (Element ''DIV'' [(''id'', [])] [])]"

definition spaced_html :: string where
  "spaced_html = ''<div> <p>Hi</p><!--c--><p>There</p></div>''"

definition spaced_body :: "dom_node list" where
  "spaced_body =
     [ElementNode (Element ''DIV'' []
        [TextNode '' '', ElementNode (Element ''P'' [] [TextNode ''Hi'']), OtherNode 8,
         ElementNode (Element ''P'' [] [TextNode ''There''])])]"

definition para_html :: string where
  "para_html = ''<p>x</p>''"

definition para_body :: "dom_node list" where
  "para_body = [ElementNode (Element ''P'' [] [TextNode ''x''])]"

definition example_parser :: "string \<Rightarrow> dom_document" where
  "example_parser html =
     \<lparr>outside_body = [],
      body = Element ''BODY'' []
        (if html = scenario_html then scenario_body
         else if html = inline_html then inline_body
         else if html = bare_text_html then bare_text_body
         else if html = empty_id_html then empty_id_body
         else if html = para_html then para_body
         else if html = spaced_html then spaced_body
         else [])\<rparr>"

definition scenario_root :: ParsedNode where
  "scenario_root = root (parseHtmlContent example_parser scenario_html)"

definition inline_p :: ParsedNode where
  "inline_p = children (root (parseHtmlContent example_parser inline_html)) ! 0"

definition scenario_second_p :: ParsedNode where
  "scenario_second_p = children (children scenario_root ! 0) ! 1"

subsection \<open>Example states and event sequences\<close>

definition hovering_state :: app_state where
  "hovering_state = (initial_state scenario_html)\<lparr>hoveredId := Some ''root-0-1''\<rparr>"


definition overlapping_submits :: "event list" where
  "overlapping_submits =
     [ChangeUrlInput ''a.example'', SubmitUrl, ChangeUrlInput ''b.example'', SubmitUrl]"


definition hover_then_load :: "event list" where
  "hover_then_load =
     [Select ''root-0-1'', Hover (Some ''root-0-1''), ChangeUrlInput ''a.example'', SubmitUrl]"

section \<open>Properties of parseHtmlContent\<close>

subsection \<open>Ids\<close>

lemma subnodes_self: "n \<in> set (subnodes n)"
  by (cases n) simp

lemma child_in_subnodes: "k < length (children n) \<Longrightarrow> children n ! k \<in> set (subnodes n)"
  by (cases n) (auto intro: subnodes_self)

lemma built_children_Nil: "built_children path i []"
  by (simp add: built_children_def)

lemma built_children_Cons:
  "built_children path i (n # ns) \<longleftrightarrow>
     id_node n = path @ id_separator n @ string_of_nat i
     \<and> (\<forall>m \<in> set (subnodes n). positional_ids m)
     \<and> built_children path (Suc i) ns"
  unfolding built_children_def
proof (intro iffI conjI allI impI)
  fix j
  assume h: "id_node n = path @ id_separator n @ string_of_nat i \<and>
    (\<forall>m\<in>set (subnodes n). positional_ids m) \<and>
    (\<forall>j<length ns. id_node (ns ! j) = path @ id_separator (ns ! j) @ string_of_nat (Suc i + j) \<and>
       (\<forall>m\<in>set (subnodes (ns ! j)). positional_ids m))"
    and j: "j < length (n # ns)"
  show "id_node ((n # ns) ! j) = path @ id_separator ((n # ns) ! j) @ string_of_nat (i + j)"
    using h j by (cases j) auto
  show "\<forall>m\<in>set (subnodes ((n # ns) ! j)). positional_ids m"
    using h j by (cases j) auto
qed force+

lemma built_children_subnodes:
  assumes "built_children path 0 ns" and "m \<in> set (concat (map subnodes ns))"
  shows "positional_ids m"
proof -
  from assms(2) obtain c where c: "c \<in> set ns" "m \<in> set (subnodes c)" by auto
  then obtain j where "j < length ns" "c = ns ! j" by (auto simp: in_set_conv_nth)
  with assms(1) c show ?thesis by (auto simp: built_children_def)
qed

lemma built_children_parent:
  "built_children path 0 ns \<Longrightarrow> positional_ids (ParsedNode path tg ats ns tc sc)"
  by (simp add: built_children_def positional_ids_def)

lemma traverse_ids:
  "id_node (fst (traverse e path)) = path
   \<and> textContent (fst (traverse e path)) = None
   \<and> (\<forall>m \<in> set (subnodes (fst (traverse e path))). positional_ids m)"
  "built_children path i (fst (traverse_childNodes kids path i))"
proof (induction e path and kids path i rule: traverse_traverse_childNodes.induct)
  case (1 tg ats kids path)
  then show ?case
    using built_children_subnodes [of path "fst (traverse_childNodes kids path 0)"]
    by (auto simp: Let_def built_children_parent)
next
  case (2 path childIndex)
  then show ?case by (simp add: built_children_Nil)
next
  case (3 e rest path childIndex)
  then show ?case
    by (simp add: Let_def built_children_Cons id_separator_def)
next
  case (4 content rest path childIndex)
  then show ?case
    by (simp add: Let_def built_children_Cons id_separator_def positional_ids_def)
next
  case (5 k rest path childIndex)
  then show ?case by (simp add: Let_def)
qed

lemma traverse_body_ids: "built_children ''root'' i (fst (traverse_body kids i))"
proof (induction kids i rule: traverse_body.induct)
  case (2 e rest childIndex)
  then show ?case
    using traverse_ids(1) [of e "''root-'' @ string_of_nat childIndex"]
    by (simp add: Let_def built_children_Cons id_separator_def)
qed (simp_all add: Let_def built_children_Nil)

text \<open>
  C1, as the code has it. In every tree \<open>parseHtmlContent\<close> builds, the child at position
  \<open>k\<close> of a node has the id of that node, then a dash if it is an element node and
  \<open>-txt-\<close> if it is a text run, then \<open>k\<close>: the index is the position among the kept
  children of the parent, element nodes and kept text runs counted together.
\<close>

theorem parse_ids_by_position:
  "\<forall>n \<in> set (subnodes (root (parseHtmlContent parseFromString html))).
     \<forall>k < length (children n).
       id_node (children n ! k)
         = id_node n @ (if textContent (children n ! k) = None then ''-'' else ''-txt-'')
             @ string_of_nat k"
proof -
  let ?ns = "fst (traverse_body (childNodes (body (parseFromString html))) 0)"
  have b: "built_children ''root'' 0 ?ns"
    by (rule traverse_body_ids)
  have "positional_ids m"
    if "m \<in> set (subnodes (root (parseHtmlContent parseFromString html)))" for m
    using that built_children_parent [OF b] built_children_subnodes [OF b]
    by (auto simp: parseHtmlContent_def Let_def) blast
  then show ?thesis
    by (simp add: positional_ids_def id_separator_def)
qed


theorem parse_ids_by_position_witness:
  "inline_p \<in> set (subnodes (root (parseHtmlContent example_parser inline_html)))
   \<and> 1 < length (children inline_p)
   \<and> textContent (children inline_p ! 0) \<noteq> None
   \<and> id_node (children inline_p ! 0) = ''root-0-txt-0''
   \<and> textContent (children inline_p ! 1) = None
   \<and> id_node (children inline_p ! 1) = ''root-0-1''"
proof -
  let ?r = "root (parseHtmlContent example_parser inline_html)"
  have "0 < length (children ?r)" by code_simp
  then have m: "inline_p \<in> set (subnodes ?r)"
    unfolding inline_p_def by (rule child_in_subnodes)
  have l: "1 < length (children inline_p)" by code_simp
  have i: "id_node inline_p = ''root-0''" by code_simp
  have t0: "textContent (children inline_p ! 0) \<noteq> None" by code_simp
  have t1: "textContent (children inline_p ! 1) = None" by code_simp
  have s0: "string_of_nat 0 = ''0''" by code_simp
  have s1: "string_of_nat 1 = ''1''" by code_simp
  from parse_ids_by_position [of "example_parser" inline_html] m
  have a: "\<forall>k < length (children inline_p).
       id_node (children inline_p ! k)
         = id_node inline_p @ (if textContent (children inline_p ! k) = None then ''-'' else ''-txt-'')
             @ string_of_nat k"
    by blast
  from l have "0 < length (children inline_p)" by linarith
  with a have "id_node (children inline_p ! 0)
      = id_node inline_p @ (if textContent (children inline_p ! 0) = None then ''-'' else ''-txt-'')
          @ string_of_nat 0"
    by blast
  then have "id_node (children inline_p ! 0) = ''root-0-txt-0''"
    using i t0 s0 by simp
  moreover from a l have "id_node (children inline_p ! 1)
      = id_node inline_p @ (if textContent (children inline_p ! 1) = None then ''-'' else ''-txt-'')
          @ string_of_nat 1"
    by blast
  then have "id_node (children inline_p ! 1) = ''root-0-1''"
    using i t1 s1 by simp
  ultimately show ?thesis using m l t0 t1 by simp
qed

text \<open>
  C1, as stated, fails. In \<^verbatim>\<open><p>Hello <span>x</span></p>\<close> the \<open>span\<close> is the first
  element child of the \<open>p\<close>, so its index among element siblings is 0, and its id is
  \<open>root-0-1\<close>: the text run before it took index 0.
\<close>

theorem element_id_not_element_index:
  "tag (children inline_p ! 1) = ''span''
   \<and> textContent (children inline_p ! 1) = None
   \<and> element_index (children inline_p) 1 = 0
   \<and> id_node inline_p = ''root-0''
   \<and> id_node (children inline_p ! 1) = ''root-0-1''
   \<and> id_node (children inline_p ! 1)
       \<noteq> id_node inline_p @ ''-'' @ string_of_nat (element_index (children inline_p) 1)"
  by code_simp

text \<open>
  The ids at every position are a function of the shape of the document alone.
\<close>

lemma traverse_shape:
  "shape_of_element e = ShapeElement ss \<Longrightarrow>
     ids_at_positions (fst (traverse e path)) = IdTree path (ids_of_shapes path 0 ss)"
  "map ids_at_positions (fst (traverse_childNodes kids path i))
     = ids_of_shapes path i (shape_of_nodes kids)"
proof (induction e path and kids path i arbitrary: ss rule: traverse_traverse_childNodes.induct)
  case (1 tg ats kids path)
  then show ?case by (auto simp: Let_def)
next
  case (2 path childIndex)
  then show ?case by simp
next
  case (3 e rest path childIndex)
  then show ?case by (cases "shape_of_element e"; cases e) (auto simp: Let_def)
next
  case (4 content rest path childIndex)
  then show ?case by (auto simp: Let_def nonblank_def)
next
  case (5 k rest path childIndex)
  then show ?case by (simp add: Let_def)
qed

lemma traverse_body_shape:
  "map ids_at_positions (fst (traverse_body kids i)) = ids_of_shapes ''root'' i (shape_of_body kids)"
proof (induction kids i rule: traverse_body.induct)
  case (2 e rest childIndex)
  then show ?case
    using traverse_shape(1) [of e _ "''root-'' @ string_of_nat childIndex"]
    by (cases "shape_of_element e"; cases e) (auto simp: Let_def)
qed (simp_all add: Let_def)

text \<open>
  C2. Parsing is deterministic in its input: two calls whose inputs the host parses into
  documents of the same shape, and so two calls on the identical input, give trees with
  the same id at every position. The witness compares the scenario document with
  \<^verbatim>\<open><div> <p>Hi</p><!--c--><p>There</p></div>\<close>, which differs from it in its texts, a
  blank text node and a comment.
\<close>

theorem parse_ids_deterministic:
  "shape_of_body (childNodes (body (parseFromString html1)))
     = shape_of_body (childNodes (body (parseFromString html2))) \<Longrightarrow>
   ids_at_positions (root (parseHtmlContent parseFromString html1))
     = ids_at_positions (root (parseHtmlContent parseFromString html2))"
  by (simp add: parseHtmlContent_def Let_def traverse_body_shape)


theorem parse_ids_deterministic_witness:
  "shape_of_body (childNodes (body (example_parser scenario_html)))
     = shape_of_body (childNodes (body (example_parser spaced_html)))
   \<and> ids_at_positions (root (parseHtmlContent example_parser scenario_html))
     = ids_at_positions (root (parseHtmlContent example_parser spaced_html))
   \<and> ids_at_positions (root (parseHtmlContent example_parser scenario_html))
     = IdTree ''root'' [IdTree ''root-0''
         [IdTree ''root-0-0'' [IdTree ''root-0-0-txt-0'' []],
          IdTree ''root-0-1'' [IdTree ''root-0-1-txt-0'' []]]]"
proof -
  have h: "shape_of_body (childNodes (body (example_parser scenario_html)))
     = shape_of_body (childNodes (body (example_parser spaced_html)))"
    by code_simp
  have v: "ids_at_positions (root (parseHtmlContent example_parser scenario_html))
     = IdTree ''root'' [IdTree ''root-0''
         [IdTree ''root-0-0'' [IdTree ''root-0-0-txt-0'' []],
          IdTree ''root-0-1'' [IdTree ''root-0-1-txt-0'' []]]]"
    by code_simp
  show ?thesis
    using h v parse_ids_deterministic [of example_parser scenario_html spaced_html]
    by simp
qed

subsection \<open>Ids are unique\<close>

lemma of_char_digit_char: "d < 10 \<Longrightarrow> (of_char (digit_char d) :: nat) = 48 + d"
  by (simp add: digit_char_def)

lemma string_of_nat_digits: "\<forall>c \<in> set (string_of_nat n). is_digit c"
proof (induction n rule: string_of_nat.induct)
  case (1 n)
  show ?case
  proof (cases "n < 10")
    case True
    then show ?thesis
      by (subst string_of_nat.simps) (simp add: is_digit_def of_char_digit_char)
  next
    case False
    have "n mod 10 < 10" by simp
    then have "is_digit (digit_char (n mod 10))"
      by (simp add: is_digit_def of_char_digit_char)
    with 1 False show ?thesis
      by (subst string_of_nat.simps) auto
  qed
qed

lemma string_of_nat_nonempty: "string_of_nat n \<noteq> []"
  by (subst string_of_nat.simps) simp

lemma nat_of_digits_snoc: "nat_of_digits (s @ [c]) = 10 * nat_of_digits s + (of_char c - 48)"
  by (simp add: nat_of_digits_def)

lemma nat_of_digits_string_of_nat: "nat_of_digits (string_of_nat n) = n"
proof (induction n rule: string_of_nat.induct)
  case (1 n)
  show ?case
  proof (cases "n < 10")
    case True
    then show ?thesis
      by (subst string_of_nat.simps) (simp add: nat_of_digits_def of_char_digit_char)
  next
    case False
    have "n mod 10 < 10" by simp
    then have "(of_char (digit_char (n mod 10)) :: nat) - 48 = n mod 10"
      by (simp add: of_char_digit_char)
    with 1 False show ?thesis
      by (subst string_of_nat.simps) (simp add: nat_of_digits_snoc)
  qed
qed

lemma string_of_nat_inj: "string_of_nat n = string_of_nat m \<Longrightarrow> n = m"
  by (metis nat_of_digits_string_of_nat)

lemma takeWhile_digits:
  "r = [] \<or> \<not> is_digit (hd r) \<Longrightarrow> takeWhile is_digit (string_of_nat n @ r) = string_of_nat n"
  using string_of_nat_digits [of n]
  by (cases r) (auto simp: takeWhile_append2 takeWhile_eq_all_conv)

lemma dash_not_digit: "\<not> is_digit (CHR ''-'')"
  by (simp add: is_digit_def)

lemma numeral_suffix_inj:
  assumes "string_of_nat n @ r = string_of_nat m @ r'"
    and "r = [] \<or> hd r = CHR ''-''" and "r' = [] \<or> hd r' = CHR ''-''"
  shows "n = m"
proof -
  have "takeWhile is_digit (string_of_nat n @ r) = string_of_nat n"
    using assms(2) dash_not_digit by (intro takeWhile_digits) auto
  moreover have "takeWhile is_digit (string_of_nat m @ r') = string_of_nat m"
    using assms(3) dash_not_digit by (intro takeWhile_digits) auto
  ultimately show ?thesis using assms(1) string_of_nat_inj by simp
qed

lemma hd_string_of_nat_digit: "is_digit (hd (string_of_nat n))"
  using string_of_nat_digits [of n] string_of_nat_nonempty [of n] by (metis hd_in_set)

lemma numbered_index: "numbered path j x \<Longrightarrow> numbered path j' x \<Longrightarrow> j = j'"
proof -
  assume "numbered path j x" and "numbered path j' x"
  then obtain s r s' r' where
    x: "x = path @ s @ string_of_nat j @ r" "x = path @ s' @ string_of_nat j' @ r'"
    and s: "s = ''-'' \<or> s = ''-txt-''" "s' = ''-'' \<or> s' = ''-txt-''"
    and r: "r = [] \<or> hd r = CHR ''-''" "r' = [] \<or> hd r' = CHR ''-''"
    unfolding numbered_def by blast
  from x have e: "s @ string_of_nat j @ r = s' @ string_of_nat j' @ r'" by simp
  have t: "\<not> is_digit (CHR ''t'')" by (simp add: is_digit_def)
  consider "s = s'" | "s = ''-''" "s' = ''-txt-''" | "s = ''-txt-''" "s' = ''-''"
    using s by auto
  then show ?thesis
  proof cases
    case 1
    with e have "string_of_nat j @ r = string_of_nat j' @ r'" by simp
    then show ?thesis using r by (rule numeral_suffix_inj)
  next
    case 2
    with e have "string_of_nat j @ r = ''txt-'' @ string_of_nat j' @ r'" by simp
    then have "hd (string_of_nat j) = CHR ''t''"
      using string_of_nat_nonempty [of j] by (metis append_Cons hd_append2 list.sel(1))
    with hd_string_of_nat_digit [of j] t show ?thesis by simp
  next
    case 3
    with e have "string_of_nat j' @ r' = ''txt-'' @ string_of_nat j @ r" by simp
    then have "hd (string_of_nat j') = CHR ''t''"
      using string_of_nat_nonempty [of j'] by (metis append_Cons hd_append2 list.sel(1))
    with hd_string_of_nat_digit [of j'] t show ?thesis by simp
  qed
qed

lemma numbered_longer: "numbered path j x \<Longrightarrow> x \<noteq> path"
  by (auto simp: numbered_def)

lemma numbered_below:
  assumes "numbered (path @ ''-'' @ string_of_nat i) j x"
  shows "numbered path i x"
proof -
  from assms obtain s r where x: "x = (path @ ''-'' @ string_of_nat i) @ s @ string_of_nat j @ r"
    and s: "s = ''-'' \<or> s = ''-txt-''"
    unfolding numbered_def by blast
  from s have "hd (s @ string_of_nat j @ r) = CHR ''-''" by auto
  moreover have "x = path @ ''-'' @ string_of_nat i @ (s @ string_of_nat j @ r)"
    using x by simp
  moreover have "s @ string_of_nat j @ r \<noteq> []" using s by auto
  ultimately show ?thesis unfolding numbered_def by blast
qed

lemma numbered_self: "numbered path i (path @ ''-'' @ string_of_nat i)"
  "numbered path i (path @ ''-txt-'' @ string_of_nat i)"
  unfolding numbered_def by (rule exI [of _ "''-''"], simp) (rule exI [of _ "''-txt-''"], simp)

lemma numbered_from_mono: "numbered_from path (Suc i) x \<Longrightarrow> numbered_from path i x"
  unfolding numbered_from_def by (meson Suc_leD)

lemma traverse_numbered:
  "\<forall>x \<in> set (all_ids (fst (traverse e path))). x = path \<or> numbered_from path 0 x"
  "\<forall>x \<in> set (concat (map all_ids (fst (traverse_childNodes kids path i)))). numbered_from path i x"
proof (induction e path and kids path i rule: traverse_traverse_childNodes.induct)
  case (1 tg ats kids path)
  then show ?case by (simp add: Let_def)
next
  case (2 path childIndex)
  then show ?case by simp
next
  case (3 e rest path childIndex)
  have "numbered_from path childIndex x"
    if "x \<in> set (all_ids (fst (traverse e (path @ ''-'' @ string_of_nat childIndex))))" for x
  proof -
    from that 3(1) consider "x = path @ ''-'' @ string_of_nat childIndex"
      | "numbered_from (path @ ''-'' @ string_of_nat childIndex) 0 x" by blast
    then show ?thesis
    proof cases
      case 1
      then show ?thesis using numbered_self(1) numbered_from_def by blast
    next
      case 2
      then show ?thesis using numbered_below numbered_from_def by blast
    qed
  qed
  with 3(2) show ?case by (auto simp: Let_def dest: numbered_from_mono)
next
  case (4 content rest path childIndex)
  have "numbered_from path childIndex (path @ ''-txt-'' @ string_of_nat childIndex)"
    using numbered_self(2) numbered_from_def by blast
  with 4 show ?case by (auto simp: Let_def dest: numbered_from_mono)
next
  case (5 k rest path childIndex)
  then show ?case by (simp add: Let_def)
qed

lemma numbered_from_apart:
  assumes "numbered path i x" and "numbered_from path (Suc i) x"
  shows False
proof -
  from assms(2) obtain j where j: "Suc i \<le> j" "numbered path j x"
    unfolding numbered_from_def by blast
  from assms(1) j(2) have "i = j" by (rule numbered_index)
  with j(1) show False by simp
qed

lemma subtree_numbered:
  assumes "x \<in> set (all_ids (fst (traverse e (path @ ''-'' @ string_of_nat i))))"
  shows "numbered path i x"
proof -
  from assms traverse_numbered(1) [of e "path @ ''-'' @ string_of_nat i"]
  have "x = path @ ''-'' @ string_of_nat i \<or> numbered_from (path @ ''-'' @ string_of_nat i) 0 x"
    by blast
  then show ?thesis
  proof
    assume "x = path @ ''-'' @ string_of_nat i"
    then show ?thesis using numbered_self(1) [of path i] by (simp only:)
  next
    assume "numbered_from (path @ ''-'' @ string_of_nat i) 0 x"
    then obtain j where "numbered (path @ ''-'' @ string_of_nat i) j x"
      unfolding numbered_from_def by blast
    then show ?thesis by (rule numbered_below)
  qed
qed

lemma traverse_distinct:
  "distinct (all_ids (fst (traverse e path)))"
  "distinct (concat (map all_ids (fst (traverse_childNodes kids path i))))"
proof (induction e path and kids path i rule: traverse_traverse_childNodes.induct)
  case (1 tg ats kids path)
  have "path \<notin> set (concat (map all_ids (fst (traverse_childNodes kids path 0))))"
    using traverse_numbered(2) [of kids path 0] numbered_longer
    unfolding numbered_from_def by blast
  with 1 show ?case by (simp add: Let_def)
next
  case (2 path childIndex)
  then show ?case by simp
next
  case (3 e rest path childIndex)
  have "set (all_ids (fst (traverse e (path @ ''-'' @ string_of_nat childIndex))))
      \<inter> set (concat (map all_ids (fst (traverse_childNodes rest path (childIndex + 1))))) = {}"
    using subtree_numbered [of _ e path childIndex]
      traverse_numbered(2) [of rest path "childIndex + 1"] numbered_from_apart [of path childIndex]
    by fastforce
  with 3 show ?case by (simp add: Let_def)
next
  case (4 content rest path childIndex)
  have "path @ ''-txt-'' @ string_of_nat childIndex
      \<notin> set (concat (map all_ids (fst (traverse_childNodes rest path (childIndex + 1)))))"
    using numbered_self(2) [of path childIndex]
      traverse_numbered(2) [of rest path "childIndex + 1"] numbered_from_apart [of path childIndex]
    by fastforce
  with 4 show ?case by (simp add: Let_def)
next
  case (5 k rest path childIndex)
  then show ?case by (simp add: Let_def)
qed

lemma traverse_body_numbered:
  "\<forall>x \<in> set (concat (map all_ids (fst (traverse_body kids i)))). numbered_from ''root'' i x"
proof (induction kids i rule: traverse_body.induct)
  case (2 e rest childIndex)
  have "numbered_from ''root'' childIndex x"
    if "x \<in> set (all_ids (fst (traverse e (''root-'' @ string_of_nat childIndex))))" for x
    using that subtree_numbered [of x e "''root''" childIndex] numbered_from_def by auto
  with 2 show ?case by (auto simp: Let_def dest: numbered_from_mono)
qed (simp_all add: Let_def)

lemma traverse_body_distinct:
  "distinct (concat (map all_ids (fst (traverse_body kids i))))"
proof (induction kids i rule: traverse_body.induct)
  case (2 e rest childIndex)
  have "set (all_ids (fst (traverse e (''root-'' @ string_of_nat childIndex))))
      \<inter> set (concat (map all_ids (fst (traverse_body rest (childIndex + 1))))) = {}"
    using subtree_numbered [of _ e "''root''" childIndex]
      traverse_body_numbered [of rest "childIndex + 1"] numbered_from_apart [of "''root''" childIndex]
    by fastforce
  with 2 traverse_distinct(1) [of e "''root-'' @ string_of_nat childIndex"]
  show ?case by (simp add: Let_def)
qed (simp_all add: Let_def)

text \<open>The ids of a tree that \<open>parseHtmlContent\<close> builds are pairwise distinct.\<close>

lemma parse_ids_distinct: "distinct (all_ids (root (parseHtmlContent parseFromString html)))"
proof -
  let ?kids = "childNodes (body (parseFromString html))"
  have "''root'' \<notin> set (concat (map all_ids (fst (traverse_body ?kids 0))))"
    using traverse_body_numbered [of ?kids 0] numbered_longer
    unfolding numbered_from_def by blast
  then show ?thesis
    using traverse_body_distinct [of ?kids 0] by (simp add: parseHtmlContent_def Let_def)
qed

subsection \<open>Text runs\<close>

lemma traverse_texts:
  "map textContent (text_runs (fst (traverse e path)))
     = map Some (filter nonblank (texts_of_element e))
   \<and> (\<forall>m \<in> set (text_runs (fst (traverse e path))). kept_text m)"
  "map textContent (concat (map text_runs (fst (traverse_childNodes kids path i))))
     = map Some (filter nonblank (texts_of_nodes kids))
   \<and> (\<forall>m \<in> set (concat (map text_runs (fst (traverse_childNodes kids path i)))). kept_text m)"
proof (induction e path and kids path i rule: traverse_traverse_childNodes.induct)
  case (1 tg ats kids path)
  then show ?case by (simp add: Let_def)
next
  case (2 path childIndex)
  then show ?case by simp
next
  case (3 e rest path childIndex)
  then show ?case by (auto simp: Let_def)
next
  case (4 content rest path childIndex)
  then show ?case by (auto simp: Let_def nonblank_def kept_text_def)
next
  case (5 k rest path childIndex)
  then show ?case by (simp add: Let_def)
qed

lemma traverse_body_texts:
  "map textContent (concat (map text_runs (fst (traverse_body kids i))))
     = map Some (filter nonblank (texts_below_elements kids))
   \<and> (\<forall>m \<in> set (concat (map text_runs (fst (traverse_body kids i)))). kept_text m)"
proof (induction kids i rule: traverse_body.induct)
  case (2 e rest childIndex)
  then show ?case
    using traverse_texts(1) [of e "''root-'' @ string_of_nat childIndex"]
    by (auto simp: Let_def)
qed (simp_all add: Let_def)

text \<open>
  C3, as the code has it. The text runs of the tree are, in order, the text nodes with
  non-blank trimmed content that lie below the element children of the body: a text node
  inside an element is in the tree exactly when its trimmed content is not empty, so the
  two counts agree; and every text run has tag \<open>#text\<close> and \<open>isSelfClosing = true\<close>.
  The text nodes that are children of the body itself are not counted.
\<close>

theorem parse_keeps_nonblank_texts:
  "map textContent (text_runs (root (parseHtmlContent parseFromString html)))
     = map Some (filter nonblank (texts_below_elements (childNodes (body (parseFromString html)))))
   \<and> length (text_runs (root (parseHtmlContent parseFromString html)))
     = length (filter nonblank (texts_below_elements (childNodes (body (parseFromString html)))))
   \<and> (\<forall>m \<in> set (text_runs (root (parseHtmlContent parseFromString html))).
        tag m = ''#text'' \<and> isSelfClosing m = Some True)"
proof -
  let ?kids = "childNodes (body (parseFromString html))"
  have r: "text_runs (root (parseHtmlContent parseFromString html))
      = concat (map text_runs (fst (traverse_body ?kids 0)))"
    by (simp add: parseHtmlContent_def Let_def)
  have m: "map textContent (text_runs (root (parseHtmlContent parseFromString html)))
     = map Some (filter nonblank (texts_below_elements ?kids))"
    unfolding r using traverse_body_texts [of ?kids 0] by blast
  have "length (map textContent (text_runs (root (parseHtmlContent parseFromString html))))
     = length (map Some (filter nonblank (texts_below_elements ?kids)))"
    by (simp only: m)
  then have l: "length (text_runs (root (parseHtmlContent parseFromString html)))
     = length (filter nonblank (texts_below_elements ?kids))"
    by simp
  have k: "\<forall>m \<in> set (text_runs (root (parseHtmlContent parseFromString html))). kept_text m"
    unfolding r using traverse_body_texts [of ?kids 0] by blast
  show ?thesis using m l k by (simp add: kept_text_def)
qed

theorem parse_keeps_nonblank_texts_witness:
  "hd (text_runs (root (parseHtmlContent example_parser scenario_html)))
     \<in> set (text_runs (root (parseHtmlContent example_parser scenario_html)))
   \<and> tag (hd (text_runs (root (parseHtmlContent example_parser scenario_html)))) = ''#text''
   \<and> isSelfClosing (hd (text_runs (root (parseHtmlContent example_parser scenario_html))))
       = Some True
   \<and> map textContent (text_runs (root (parseHtmlContent example_parser scenario_html)))
       = [Some ''Hello'', Some ''World'']"
proof -
  let ?r = "root (parseHtmlContent example_parser scenario_html)"
  note t = parse_keeps_nonblank_texts [of "example_parser" scenario_html]
  have f: "filter nonblank (texts_below_elements (childNodes (body (example_parser scenario_html))))
      = [''Hello'', ''World'']"
    by code_simp
  from t f have l: "length (text_runs ?r) = 2" by simp
  then have "text_runs ?r \<noteq> []" by auto
  then have m: "hd (text_runs ?r) \<in> set (text_runs ?r)" by (rule hd_in_set)
  with t have "tag (hd (text_runs ?r)) = ''#text'' \<and> isSelfClosing (hd (text_runs ?r)) = Some True"
    by blast
  moreover from t f have "map textContent (text_runs ?r) = [Some ''Hello'', Some ''World'']"
    by simp
  ultimately show ?thesis using m by simp
qed

text \<open>
  C3, as stated, fails. The document \<^verbatim>\<open>Hello\<close> has one non-blank text node, a child of
  the body; the loop over \<open>body.children\<close> sees elements only, and the tree has no text run.
\<close>

theorem body_text_not_in_tree:
  "length (text_runs (root (parseHtmlContent example_parser bare_text_html))) = 0
   \<and> length (filter nonblank (texts_of_nodes (childNodes (body (example_parser bare_text_html))))) = 1"
  by code_simp

section \<open>Properties of generateCssSelector\<close>

lemma findPath_absent:
  "wanted \<notin> set (all_ids node) \<Longrightarrow> findPath wanted node path = None"
  "wanted \<notin> set (concat (map all_ids nodes)) \<Longrightarrow> findPath_children wanted nodes path = None"
  by (induction wanted node path and wanted nodes path rule: findPath_findPath_children.induct)
     auto

text \<open>
  C5. When no node of the tree carries the target id, \<open>generateCssSelector\<close> returns the
  empty string: \<open>findPath\<close> finds nothing, and the function returns before it builds
  any segment.
\<close>

theorem generateCssSelector_absent_id:
  "wanted \<notin> set (all_ids rootNode) \<Longrightarrow> generateCssSelector rootNode wanted = []"
  by (simp add: generateCssSelector_def findPath_absent)

theorem generateCssSelector_absent_id_witness:
  "''root-0-2'' \<notin> set (all_ids scenario_root)
   \<and> generateCssSelector scenario_root ''root-0-2'' = []"
proof -
  have h: "''root-0-2'' \<notin> set (all_ids scenario_root)"
    by code_simp
  show ?thesis using h generateCssSelector_absent_id [OF h] by simp
qed

lemma hd_split_ws: "hd (split_ws s) = takeWhile (\<lambda>c. \<not> isWhiteSpace c) s"
  by (subst split_ws.simps) (simp add: Let_def)

lemma split_ws_nonempty: "split_ws s \<noteq> []"
  by (subst split_ws.simps) (simp add: Let_def)

lemma takeWhile_append_stop:
  "(ys \<noteq> [] \<Longrightarrow> \<not> P (hd ys)) \<Longrightarrow> takeWhile P (xs @ ys) = takeWhile P xs"
  by (induction xs) (auto simp: takeWhile_eq_Nil_iff neq_Nil_conv)

lemma first_token_trim:
  "takeWhile (\<lambda>c. \<not> isWhiteSpace c) (trim v) = first_class_token v"
proof -
  let ?u = "dropWhile isWhiteSpace v"
  let ?kept = "rev (dropWhile isWhiteSpace (rev ?u))"
  let ?cut = "rev (takeWhile isWhiteSpace (rev ?u))"
  have split: "?u = ?kept @ ?cut"
    by (metis rev_append rev_rev_ident takeWhile_dropWhile_id)
  have "\<forall>c \<in> set ?cut. isWhiteSpace c"
    by (auto dest: set_takeWhileD)
  then have stop: "?cut \<noteq> [] \<Longrightarrow> \<not> (\<lambda>c. \<not> isWhiteSpace c) (hd ?cut)"
    by (metis hd_in_set)
  have "takeWhile (\<lambda>c. \<not> isWhiteSpace c) (?kept @ ?cut) = takeWhile (\<lambda>c. \<not> isWhiteSpace c) ?kept"
    using stop by (rule takeWhile_append_stop)
  with split show ?thesis
    by (simp add: trim_def first_class_token_def)
qed

lemma findIndex_filter_nth:
  "distinct (map f xs) \<Longrightarrow> k < length xs \<Longrightarrow> Q (xs ! k) \<Longrightarrow> f (xs ! k) = v \<Longrightarrow>
     findIndex (\<lambda>x. f x = v) (filter Q xs) = Some (length (filter Q (take k xs)))"
proof (induction xs arbitrary: k)
  case Nil
  then show ?case by simp
next
  case (Cons x xs)
  show ?case
  proof (cases k)
    case 0
    with Cons.prems show ?thesis by simp
  next
    case (Suc j)
    with Cons.prems have j: "j < length xs" "Q (xs ! j)" "f (xs ! j) = v" "distinct (map f xs)"
      by auto
    from Cons.prems Suc j have "f x \<noteq> v"
      by (metis distinct.simps(2) list.simps(9) nth_mem length_map nth_map)
    with Cons.IH [OF j(4) j(1) j(2) j(3)] Suc show ?thesis by simp
  qed
qed

lemma id_in_all_ids: "id_node n \<in> set (all_ids n)"
  by (cases n) simp

lemma distinct_child_ids: "distinct (concat (map all_ids cs)) \<Longrightarrow> distinct (map id_node cs)"
proof (induction cs)
  case Nil
  then show ?case by simp
next
  case (Cons c cs)
  have "id_node c \<notin> id_node ` set cs"
  proof
    assume "id_node c \<in> id_node ` set cs"
    then obtain d where d: "d \<in> set cs" "id_node d = id_node c" by auto
    then have "id_node c \<in> set (concat (map all_ids cs))"
      using id_in_all_ids [of d] by auto
    with Cons.prems id_in_all_ids [of c] show False by auto
  qed
  with Cons show ?case by simp
qed

lemma distinct_child_subtree:
  "distinct (concat (map all_ids cs)) \<Longrightarrow> k < length cs \<Longrightarrow> distinct (all_ids (cs ! k))"
  by (induction cs arbitrary: k) (auto simp: nth_Cons split: nat.splits)

lemma selector_segment_policy:
  assumes d: "distinct (map id_node (children n))" and k: "k < length (children n)"
  shows "selector_segment n (children n ! k) = policy_segment n k"
proof -
  let ?c = "children n ! k"
  have idx: "findIndex (\<lambda>x. id_node x = id_node ?c) (filter (\<lambda>x. tag x = tag ?c) (children n))
      = Some (length (filter (\<lambda>x. tag x = tag ?c) (take k (children n))))"
    using d k by (rule findIndex_filter_nth) simp_all
  show ?thesis
    unfolding selector_segment_def policy_segment_def Let_def
    by (simp add: idx hd_split_ws split_ws_nonempty first_token_trim)
qed

lemma findPath_children_at:
  "distinct (concat (map all_ids cs)) \<Longrightarrow> k < length cs \<Longrightarrow>
   findPath wanted (cs ! k) p = Some r \<Longrightarrow> findPath_children wanted cs p = Some r"
proof (induction cs arbitrary: k)
  case Nil
  then show ?case by simp
next
  case (Cons c cs)
  show ?case
  proof (cases k)
    case 0
    with Cons.prems show ?thesis by simp
  next
    case (Suc j)
    with Cons.prems have j: "j < length cs" "findPath wanted (cs ! j) p = Some r" by auto
    then have "wanted \<in> set (all_ids (cs ! j))"
      using findPath_absent(1) [of wanted "cs ! j" p] by auto
    with j(1) have "wanted \<in> set (concat (map all_ids cs))" by auto
    with Cons.prems(1) have "wanted \<notin> set (all_ids c)" by auto
    then have "findPath wanted c p = None" by (rule findPath_absent)
    moreover have "findPath_children wanted cs p = Some r"
      using Cons.IH [OF _ j] Cons.prems(1) by simp
    ultimately show ?thesis by simp
  qed
qed

lemma node_at_id_mem: "node_at n ks = Some t \<Longrightarrow> id_node t \<in> set (all_ids n)"
proof (induction ks arbitrary: n)
  case Nil
  then show ?case by (simp add: id_in_all_ids)
next
  case (Cons k ks)
  then have k: "k < length (children n)" and "node_at (children n ! k) ks = Some t"
    by (auto split: if_splits)
  with Cons.IH have "id_node t \<in> set (all_ids (children n ! k))" by simp
  with k show ?case by (cases n) auto
qed

lemma findPath_self: "findPath (id_node n) n p = Some (p @ [n])"
  by (cases n) simp

lemma findPath_node_at:
  "distinct (all_ids n) \<Longrightarrow> node_at n ks = Some t \<Longrightarrow>
     findPath (id_node t) n p = Some (p @ nodes_along n ks)"
proof (induction ks arbitrary: n p)
  case Nil
  then show ?case by (simp add: findPath_self)
next
  case (Cons k ks)
  obtain i tg ats cs tc sc where n: "n = ParsedNode i tg ats cs tc sc" by (cases n)
  from Cons.prems n have k: "k < length cs" and t: "node_at (cs ! k) ks = Some t"
    by (auto split: if_splits)
  from Cons.prems(1) n have dc: "distinct (concat (map all_ids cs))"
    and inot: "i \<notin> set (concat (map all_ids cs))" by auto
  have "id_node t \<in> set (all_ids (cs ! k))" using t by (rule node_at_id_mem)
  with k have "id_node t \<in> set (concat (map all_ids cs))" by auto
  with inot have ne: "i \<noteq> id_node t" by auto
  have "findPath (id_node t) (cs ! k) (p @ [n]) = Some ((p @ [n]) @ nodes_along (cs ! k) ks)"
    using distinct_child_subtree [OF dc k] t by (rule Cons.IH)
  then have "findPath_children (id_node t) cs (p @ [n]) = Some ((p @ [n]) @ nodes_along (cs ! k) ks)"
    by (rule findPath_children_at [OF dc k])
  with ne show ?case by (simp add: n)
qed

lemma map_zip_upt_parent:
  "map (\<lambda>(node, idx). f ((x # xs) ! idx) node) (zip xs [0 ..< length xs])
     = map (\<lambda>(parent, node). f parent node) (zip (x # xs) xs)"
  by (rule nth_equalityI) (auto simp: nth_Cons split: nat.splits)

lemma nodes_along_Cons: "nodes_along n ks = n # tl (nodes_along n ks)"
  by (cases ks) simp_all

lemma segments_along:
  "distinct (all_ids n) \<Longrightarrow> node_at n ks = Some t \<Longrightarrow>
     map (\<lambda>(parent, node). selector_segment parent node)
       (zip (nodes_along n ks) (tl (nodes_along n ks))) = policy_segments n ks"
proof (induction ks arbitrary: n)
  case Nil
  then show ?case by simp
next
  case (Cons k ks)
  let ?c = "children n ! k"
  from Cons.prems have k: "k < length (children n)" and t: "node_at ?c ks = Some t"
    by (auto split: if_splits)
  from Cons.prems(1) have dc: "distinct (concat (map all_ids (children n)))"
    by (cases n) auto
  have seg: "selector_segment n ?c = policy_segment n k"
    using distinct_child_ids [OF dc] k by (rule selector_segment_policy)
  have rest: "map (\<lambda>(parent, node). selector_segment parent node)
       (zip (nodes_along ?c ks) (tl (nodes_along ?c ks))) = policy_segments ?c ks"
    using distinct_child_subtree [OF dc k] t by (rule Cons.IH)
  obtain tail where tail: "nodes_along ?c ks = ?c # tail"
    using nodes_along_Cons by blast
  show ?case using seg rest by (simp add: tail)
qed

text \<open>
  C4, as the code has it. In a tree whose ids are pairwise distinct, as they are in every
  tree \<open>parseHtmlContent\<close> builds, let \<open>target\<close> be the node reached from the synthetic root by the child positions \<open>k # ks\<close>. Then
  \<open>generateCssSelector\<close> on the id of \<open>target\<close> returns the segments of the chain from
  just below the root down to \<open>target\<close>, joined by \<open>" > "\<close>. A node with a non-empty
  \<open>id\<close> attribute contributes \<open>tag#id\<close>; else a node with a non-empty \<open>class\<close>
  attribute contributes \<open>tag.token\<close> for the first token of the class, and the bare tag
  when the class is white space only; else a node whose parent has more than one child of
  its tag contributes \<open>tag:nth-of-type(k)\<close>, \<open>k\<close> its one-based position among the
  children of that tag; else the bare tag. The witness is the scenario: the second \<open>p\<close>
  of \<^verbatim>\<open><div><p>Hello</p><p>World</p></div>\<close> yields \<open>div > p:nth-of-type(2)\<close>.
\<close>

theorem generateCssSelector_policy:
  assumes "distinct (all_ids rootNode)" and "node_at rootNode (k # ks) = Some target"
  shows "generateCssSelector rootNode (id_node target)
           = join '' > '' (policy_segments rootNode (k # ks))"
proof -
  let ?below = "nodes_along (children rootNode ! k) ks"
  have found: "findPath (id_node target) rootNode [] = Some (rootNode # ?below)"
    using findPath_node_at [OF assms, of "[]"] by simp
  obtain tail where tail: "?below = (children rootNode ! k) # tail"
    using nodes_along_Cons by blast
  have "map (\<lambda>(node, idx). selector_segment ((rootNode # ?below) ! idx) node)
          (zip ?below [0 ..< length ?below])
        = map (\<lambda>(parent, node). selector_segment parent node) (zip (rootNode # ?below) ?below)"
    by (rule map_zip_upt_parent)
  also have "\<dots> = policy_segments rootNode (k # ks)"
    using segments_along [OF assms] by simp
  finally show ?thesis
    using found tail by (simp add: generateCssSelector_def Let_def)
qed

theorem generateCssSelector_policy_witness:
  "distinct (all_ids scenario_root)
   \<and> node_at scenario_root [0, 1] = Some scenario_second_p
   \<and> id_node scenario_second_p = ''root-0-1''
   \<and> generateCssSelector scenario_root ''root-0-1'' = ''div > p:nth-of-type(2)''"
proof -
  have d: "distinct (all_ids scenario_root)" by code_simp
  have l0: "0 < length (children scenario_root)" by code_simp
  have l1: "1 < length (children (children scenario_root ! 0))" by code_simp
  have n: "node_at scenario_root [0, 1] = Some scenario_second_p"
    using l0 l1 by (simp add: scenario_second_p_def)
  have i: "id_node scenario_second_p = ''root-0-1''" by code_simp
  have s: "join '' > '' (policy_segments scenario_root [0, 1]) = ''div > p:nth-of-type(2)''"
    by code_simp
  from generateCssSelector_policy [OF d n] i s
  have "generateCssSelector scenario_root ''root-0-1'' = ''div > p:nth-of-type(2)''"
    by simp
  with d n i show ?thesis by simp
qed

text \<open>
  C4, as stated, fails on a node with an empty \<open>id\<close> attribute: for
  \<^verbatim>\<open><div id></div>\<close> the claim gives the segment \<open>div#\<close>, and the code, which tests the
  attribute for truthiness, gives \<open>div\<close>.
\<close>

theorem empty_id_attribute_segment:
  "attributes (children (root (parseHtmlContent example_parser empty_id_html)) ! 0) ''id'' = Some []
   \<and> tag (children (root (parseHtmlContent example_parser empty_id_html)) ! 0) = ''div''
   \<and> generateCssSelector (root (parseHtmlContent example_parser empty_id_html)) ''root-0'' = ''div''
   \<and> generateCssSelector (root (parseHtmlContent example_parser empty_id_html)) ''root-0'' \<noteq> ''div#''"
  by code_simp

section \<open>Properties of the application\<close>

subsection \<open>Loading a URL\<close>

text \<open>
  C6. The claim holds for \<open>selectedId\<close> and the code misses it for \<open>hoveredId\<close>: the
  continuation of \<open>handleUrlSubmit\<close> resets the selection and leaves the hover as it
  was. From the first render of the scenario document, the user selects and hovers the
  second \<open>p\<close> (id \<open>root-0-1\<close>, an id of the tree), enters a URL and submits; the fetch
  resolves with \<^verbatim>\<open><p>x</p>\<close>. After it \<open>selectedId\<close> is \<open>null\<close>, and \<open>hoveredId\<close> is still
  \<open>root-0-1\<close>, which is no id of the tree of the new document.
\<close>

theorem hover_survives_load:
  "hoveredId (app (run (initial_system scenario_html) hover_then_load)) = Some ''root-0-1''
   \<and> selectedId (app (run (initial_system scenario_html) hover_then_load)) = Some ''root-0-1''
   \<and> ''root-0-1'' \<in> set (all_ids (root (parseHtmlContent example_parser
        (rawHtml (app (run (initial_system scenario_html) hover_then_load))))))
   \<and> rawHtml (app (run (initial_system scenario_html) (hover_then_load @ [FetchFulfilled 0 para_html])))
       = para_html
   \<and> selectedId (app (run (initial_system scenario_html) (hover_then_load @ [FetchFulfilled 0 para_html])))
       = None
   \<and> hoveredId (app (run (initial_system scenario_html) (hover_then_load @ [FetchFulfilled 0 para_html])))
       = Some ''root-0-1''
   \<and> ''root-0-1'' \<notin> set (all_ids (root (parseHtmlContent example_parser
        (rawHtml (app (run (initial_system scenario_html)
           (hover_then_load @ [FetchFulfilled 0 para_html])))))))"
  by code_simp







text \<open>
  The guard is the form's alone. \<open>handleUrlSubmit\<close> has no check of its own: were it
  called for \<open>b.example\<close> with the fetch for \<open>a.example\<close> in flight, which the form does not
  let through, and were the second fetch to resolve first, the result of the first would
  replace it when it resolves.
\<close>

lemma handler_without_form_applies_stale:
  "ui_run (initial_system scenario_html) overlapping_submits = None
   \<and> inFlight (run (initial_system scenario_html) overlapping_submits) = [''a.example'', ''b.example'']
   \<and> rawHtml (app (run (initial_system scenario_html)
        (overlapping_submits @ [FetchFulfilled 1 para_html]))) = para_html
   \<and> rawHtml (app (run (initial_system scenario_html)
        (overlapping_submits @ [FetchFulfilled 1 para_html, FetchFulfilled 0 inline_html]))) = inline_html
   \<and> stale_applied (track_run (start_tracking (initial_system scenario_html))
        (overlapping_submits @ [FetchFulfilled 1 para_html, FetchFulfilled 0 inline_html]))"
  by code_simp

subsection \<open>The operating mode\<close>

lemma rendered_overlays_interact: "\<not> isInspectMode s \<Longrightarrow> rendered_overlays insts mounted s = []"
  by (simp add: rendered_overlays_def VisualViewer_overlays_def map_filter_simps)

text \<open>
  C8. Setting the mode changes neither \<open>selectedId\<close> nor \<open>hoveredId\<close>. In Interact
  mode \<open>VisualViewer\<close> renders no overlay: whatever rectangles the \<open>Overlay\<close> instances
  held, nothing is drawn and the instances are unmounted. Whenever an overlay is drawn the
  mode is Inspect; and switching to Interact and back draws what switching to Inspect
  draws, from the ids that were kept.
\<close>

theorem mode_switch_keeps_ids:
  "selectedId (setIsInspectMode b s) = selectedId s
   \<and> hoveredId (setIsInspectMode b s) = hoveredId s
   \<and> VisualViewer_overlays mounted (setIsInspectMode False s) = []
   \<and> VisualViewer_commit getRect scrollTrigger mounted (setIsInspectMode False s) insts = []
   \<and> rendered_overlays insts mounted (setIsInspectMode False s) = []
   \<and> (rendered_overlays insts mounted s \<noteq> [] \<longrightarrow> isInspectMode s)
   \<and> rendered_overlays insts mounted (setIsInspectMode True (setIsInspectMode False s))
       = rendered_overlays insts mounted (setIsInspectMode True s)"
  using rendered_overlays_interact [of s insts mounted]
  by (auto simp: setIsInspectMode_def rendered_overlays_def VisualViewer_overlays_def
      VisualViewer_commit_def map_filter_simps)

theorem mode_switch_keeps_ids_witness:
  "rendered_overlays (VisualViewer_commit Some 0 True hovering_state []) True hovering_state
     = [''root-0-1'']
   \<and> isInspectMode hovering_state
   \<and> hoveredId (setIsInspectMode False hovering_state) = Some ''root-0-1''
   \<and> rendered_overlays (VisualViewer_commit Some 0 True hovering_state []) True
        (setIsInspectMode False hovering_state) = []
   \<and> VisualViewer_commit Some 0 True (setIsInspectMode False hovering_state)
        (VisualViewer_commit Some 0 True hovering_state []) = []
   \<and> rendered_overlays (VisualViewer_commit Some 0 True hovering_state []) True
        (setIsInspectMode True (setIsInspectMode False hovering_state)) = [''root-0-1'']"
proof -
  let ?insts = "VisualViewer_commit Some 0 True hovering_state [] :: string overlay_instance list"
  have r: "rendered_overlays ?insts True hovering_state = [''root-0-1'']" by code_simp
  then have ne: "rendered_overlays ?insts True hovering_state \<noteq> []" by simp
  have h: "hoveredId hovering_state = Some ''root-0-1''" by code_simp
  have t: "rendered_overlays ?insts True (setIsInspectMode True hovering_state) = [''root-0-1'']"
    by code_simp
  show ?thesis
    using mode_switch_keeps_ids [of False hovering_state True Some 0 ?insts] ne r h t
      mode_switch_keeps_ids [of True hovering_state True Some 0 ?insts]
    by simp
qed

subsection \<open>Adding a scrape target\<close>




section \<open>Properties of the script generation service\<close>

lemma foldl_append_concat: "foldl (\<lambda>result chunk. result @ chunk) acc xs = acc @ concat xs"
  by (induction xs arbitrary: acc) simp_all

text \<open>
  C10. For every key, service, document and list of targets, \<open>generateScrapingScript\<close>
  returns the chunks that \<open>generateScrapingScriptStream\<close> yields on the same arguments,
  concatenated in order: nothing is put between them and nothing is dropped.
\<close>

theorem generateScrapingScript_concat:
  "generateScrapingScript apiKey generateContentStream html targets
     = concat (generateScrapingScriptStream apiKey generateContentStream html targets)"
  by (simp add: generateScrapingScript_def foldl_append_concat)

text \<open>
  The stream on an answer in five chunks, one without text and one that is a code fence:
  three chunks are yielded.
\<close>

lemma generateScrapingScriptStream_example:
  "generateScrapingScriptStream (Some ''key'')
      (\<lambda>prompt. AiResponse
         [Some ''function ex'', None, Some (bt @ bt @ bt @ ''javascript''),
          Some ''tractData(doc'', Some '') {...}''] False)
      scenario_html []
    = [''function ex'', ''tractData(doc'', '') {...}'']"
  by code_simp

end
